theory Spec2Isabelle
  imports Main "HOL-Library.Log_Nat"
begin

section \<open>The screenshot script \<^verbatim>\<open>screenshots/crop.py\<close>\<close>

text \<open>
  The script is a straight line of four library calls:
  \<^verbatim>\<open>
  image = Image.open("ChangeList.png")
  original_width, original_height = image.size
  new_width = 1200
  new_height = int(new_width * original_height / original_width)
  resized_image = image.resize((new_width, new_height), resample=Image.LANCZOS)
  left = 0; top = 0; right = 1200; bottom = 630
  cropped_image = resized_image.crop((left, top, right, bottom))
  cropped_image.save("ChangeList_crop.png")
  \<close>
  The arithmetic of line 11 is Python's: unbounded integers, the true division of two
  integers (correctly rounded to a binary64 float) and the truncation \<open>int()\<close>. The
  image operations are Pillow's; they are modelled by what they do to the size, the mode
  and the pixel grid of a buffer. The decoder, the Lanczos kernel and the PNG encoder
  are parameters of the model. The two limits that \<open>resize\<close> puts on the target size
  before it allocates anything are modelled; running out of memory is not.
\<close>

subsection \<open>Python errors\<close>

datatype py_error =
    FileNotFoundError
  | UnidentifiedImageError
  | ZeroDivisionError
  | OverflowError
  | ValueError
  | PermissionError
  | OSError
  | MemoryError

subsection \<open>Python's \<open>int / int\<close> and \<open>int(float)\<close>\<close>

text \<open>
  A finite binary64 float is a pair \<open>(m, e)\<close> that stands for \<open>m * 2 ^ e\<close>, with
  \<open>\<bar>m\<bar> \<le> 2 ^ 53\<close> and \<open>- 1074 \<le> e\<close>.
\<close>

type_synonym py_float = "int \<times> int"

text \<open>The integer nearest to \<open>n / d\<close> for \<open>0 < d\<close>, a tie going to the even one.\<close>

definition round_half_even :: "int \<Rightarrow> int \<Rightarrow> int" where
  "round_half_even n d =
     (let q = n div d; r = n mod d
      in if 2 * r < d then q
         else if d < 2 * r then q + 1
         else if even q then q else q + 1)"

text \<open>\<open>binade a b\<close> is \<open>\<lfloor>log\<^sub>2 (a / b)\<rfloor>\<close> for positive \<open>a\<close> and \<open>b\<close>.\<close>

definition binade :: "int \<Rightarrow> int \<Rightarrow> int" where
  "binade a b =
     (let d = bitlen a - bitlen b
      in if b * 2 ^ nat d \<le> a * 2 ^ nat (- d) then d else d - 1)"

text \<open>
  The quotient of two positive integers, rounded to the nearest float: 53 significant
  bits, the exponent of the last bit not below \<open>- 1074\<close>; a result of \<open>2 ^ 1024\<close> or
  more is Python's \<open>OverflowError\<close>.
\<close>

definition divide_pos :: "int \<Rightarrow> int \<Rightarrow> py_error + py_float" where
  "divide_pos a b =
     (let e = max (binade a b - 52) (- 1074);
          m = round_half_even (a * 2 ^ nat (- e)) (b * 2 ^ nat e)
      in if 0 \<le> e \<and> 2 ^ 1024 \<le> m * 2 ^ nat e then Inl OverflowError else Inr (m, e))"

text \<open>\<open>a / b\<close> on Python integers: the sign is that of the exact quotient.\<close>

definition py_true_divide :: "int \<Rightarrow> int \<Rightarrow> py_error + py_float" where
  "py_true_divide a b =
     (if b = 0 then Inl ZeroDivisionError
      else if a = 0 then Inr (0, 0)
      else (case divide_pos \<bar>a\<bar> \<bar>b\<bar> of
              Inl err \<Rightarrow> Inl err
            | Inr (m, e) \<Rightarrow> Inr (if (a < 0) = (b < 0) then (m, e) else (- m, e))))"

text \<open>\<open>int(x)\<close> on a finite float truncates towards zero.\<close>

definition py_int :: "py_float \<Rightarrow> int" where
  "py_int x =
     (case x of (m, e) \<Rightarrow>
        if 0 \<le> e then m * 2 ^ nat e
        else if 0 \<le> m then m div 2 ^ nat (- e)
        else - ((- m) div 2 ^ nat (- e)))"

subsection \<open>Lines 10 and 11: the new size\<close>

definition new_width :: int where
  "new_width = 1200"

definition new_height :: "int \<Rightarrow> int \<Rightarrow> py_error + int" where
  "new_height original_width original_height =
     (case py_true_divide (new_width * original_height) original_width of
        Inl err \<Rightarrow> Inl err
      | Inr x \<Rightarrow> Inr (py_int x))"

subsection \<open>Image buffers and the library\<close>

text \<open>
  A buffer has a size \<open>(width, height)\<close>, a mode (the pixel format: \<open>RGB\<close>,
  \<open>RGBA\<close>, \<open>L\<close>, ...) and a pixel grid; \<open>pix im x y\<close> is the packed pixel in column
  \<open>x\<close> of row \<open>y\<close>, the value \<open>0\<close> being the pixel with every band zero. Only
  the coordinates inside the size matter.
\<close>

type_synonym pixel = nat

type_synonym bytes = "nat list"

record image =
  size_im :: "int \<times> int"
  mode_im :: string
  pix :: "int \<Rightarrow> int \<Rightarrow> pixel"

text \<open>
  What the script takes from Pillow without looking inside: the decoder behind
  \<open>Image.open\<close> and the loading of the pixels (\<open>None\<close> when the bytes are no
  image), the filter of \<open>resize\<close> (the pixel at \<open>(x, y)\<close> of the source resampled
  to a target size: Lanczos, and the nearest pixel for the modes \<open>1\<close> and \<open>P\<close>), the
  PNG encoder behind \<open>save\<close> (\<open>None\<close> when the buffer cannot be written as PNG), and
  what a failed \<open>save\<close> leaves at a path that held \<open>old\<close>.
\<close>

record pil =
  decode :: "bytes \<Rightarrow> image option"
  lanczos :: "image \<Rightarrow> int \<times> int \<Rightarrow> int \<Rightarrow> int \<Rightarrow> pixel"
  encode_png :: "image \<Rightarrow> bytes option"
  failed_save :: "image \<Rightarrow> bytes option \<Rightarrow> bytes option"

text \<open>
  The world of a run: the files of the working directory, the paths that cannot be
  opened for writing, and the buffers of the process. A reference to a buffer is its
  index in \<open>bufs\<close>; every reference the script holds comes from \<open>alloc\<close>.
\<close>

record world =
  files :: "string \<rightharpoonup> bytes"
  read_only :: "string set"
  bufs :: "image list"

definition alloc :: "image \<Rightarrow> world \<Rightarrow> (py_error + nat) \<times> world" where
  "alloc im w = (Inr (length (bufs w)), w\<lparr>bufs := bufs w @ [im]\<rparr>)"

subsection \<open>The four library calls\<close>

text \<open>\<open>Image.open(path)\<close> reads the file and changes nothing on disk.\<close>

definition Image_open :: "pil \<Rightarrow> string \<Rightarrow> world \<Rightarrow> (py_error + nat) \<times> world" where
  "Image_open L path w =
     (case files w path of
        None \<Rightarrow> (Inl FileNotFoundError, w)
      | Some bs \<Rightarrow>
          (case decode L bs of
             None \<Rightarrow> (Inl UnidentifiedImageError, w)
           | Some im \<Rightarrow> alloc im w))"

text \<open>
  The target size of a resize goes to C as two \<open>int\<close>s. The Lanczos filter then
  tabulates, for every column and for every row of the target, \<open>ksize\<close> coefficients
  of type \<open>double\<close>, and refuses a side above \<open>INT_MAX / (ksize * sizeof(double))\<close>
  before it allocates anything. The support of the filter is 3, and \<open>ksize\<close> is 7
  along an axis that does not shrink. (Along an axis that shrinks by a factor \<open>s\<close> it
  is \<open>2 * \<lceil>3 * s\<rceil> + 1\<close> and the limit is lower in proportion. With a source of at most
  178956970 pixels, the most that \<open>Image.open\<close> accepts, and a target height of at
  least 1, that lower limit is above the target side; the model leaves it out.)
  The modes \<open>1\<close> and \<open>P\<close> have no colour arithmetic: for them \<open>resize\<close> takes the
  nearest pixel instead of filtering, and tabulates nothing.
\<close>

definition int_max :: int where
  "int_max = 2 ^ 31 - 1"

definition int_min :: int where
  "int_min = - (2 ^ 31)"

definition lanczos_ksize :: int where
  "lanczos_ksize = 3 * 2 + 1"

definition max_side :: int where
  "max_side = int_max div (lanczos_ksize * 8)"

text \<open>
  \<open>im.resize(size, resample=Image.LANCZOS)\<close>: a copy when the size is already the
  requested one; otherwise \<open>OverflowError\<close> for a side that is no C \<open>int\<close>; otherwise
  \<open>ValueError\<close> (height and width must be > 0) for a side below 1; otherwise
  \<open>MemoryError\<close> for a side above \<open>max_side\<close>, which is 38347922, when the mode
  is filtered; otherwise a new buffer of that size, of the same mode, filled by the
  filter.
\<close>

definition resize_im :: "pil \<Rightarrow> image \<Rightarrow> int \<times> int \<Rightarrow> py_error + image" where
  "resize_im L im sz =
     (if size_im im = sz then Inr im
      else if fst sz < int_min \<or> int_max < fst sz \<or> snd sz < int_min \<or> int_max < snd sz
        then Inl OverflowError
      else if fst sz < 1 \<or> snd sz < 1 then Inl ValueError
      else if mode_im im \<noteq> ''1'' \<and> mode_im im \<noteq> ''P''
              \<and> (max_side < fst sz \<or> max_side < snd sz)
        then Inl MemoryError
      else Inr \<lparr>size_im = sz, mode_im = mode_im im, pix = lanczos L im sz\<rparr>)"

definition resize :: "pil \<Rightarrow> nat \<Rightarrow> int \<times> int \<Rightarrow> world \<Rightarrow> (py_error + nat) \<times> world" where
  "resize L r sz w =
     (case resize_im L (bufs w ! r) sz of
        Inl err \<Rightarrow> (Inl err, w)
      | Inr im \<Rightarrow> alloc im w)"

text \<open>
  \<open>im.crop((x0, y0, x1, y1))\<close>: a new buffer of size \<open>(x1 - x0, y1 - y0)\<close> and of the
  same mode; a pixel of the box that lies outside the source is zero. The only
  errors are a right edge left of the left one and a lower edge above the upper one.
\<close>

definition crop_im :: "image \<Rightarrow> int \<times> int \<times> int \<times> int \<Rightarrow> py_error + image" where
  "crop_im im box =
     (case box of (x0, y0, x1, y1) \<Rightarrow>
        if x1 < x0 then Inl ValueError
        else if y1 < y0 then Inl ValueError
        else Inr \<lparr>size_im = (x1 - x0, y1 - y0), mode_im = mode_im im,
                  pix = (\<lambda>x y. if 0 \<le> x + x0 \<and> x + x0 < fst (size_im im)
                                  \<and> 0 \<le> y + y0 \<and> y + y0 < snd (size_im im)
                               then pix im (x + x0) (y + y0) else 0)\<rparr>)"

definition crop :: "nat \<Rightarrow> int \<times> int \<times> int \<times> int \<Rightarrow> world \<Rightarrow> (py_error + nat) \<times> world" where
  "crop r box w =
     (case crop_im (bufs w ! r) box of
        Inl err \<Rightarrow> (Inl err, w)
      | Inr im \<Rightarrow> alloc im w)"

text \<open>
  \<open>im.save(path)\<close> with a path ending in \<open>.png\<close>: the file is opened for writing,
  then the buffer is encoded into it.
\<close>

definition save :: "pil \<Rightarrow> nat \<Rightarrow> string \<Rightarrow> world \<Rightarrow> (py_error + unit) \<times> world" where
  "save L r path w =
     (if path \<in> read_only w then (Inl PermissionError, w)
      else (case encode_png L (bufs w ! r) of
              None \<Rightarrow>
                (Inl OSError,
                 w\<lparr>files := (files w)(path := failed_save L (bufs w ! r) (files w path))\<rparr>)
            | Some bs \<Rightarrow> (Inr (), w\<lparr>files := (files w)(path \<mapsto> bs)\<rparr>)))"

subsection \<open>The script\<close>

definition left :: int where
  "left = 0"

definition top_y :: int where
  "top_y = 0"

definition right :: int where
  "right = 1200"

definition bottom :: int where
  "bottom = 630"

text \<open>
  Lines 4 to 21: everything before the save. The result names the buffers bound to
  \<open>image\<close> (here \<open>image_buf\<close>), \<open>resized_image\<close> and \<open>cropped_image\<close>.
\<close>

definition prepare :: "pil \<Rightarrow> world \<Rightarrow> (py_error + nat \<times> nat \<times> nat) \<times> world" where
  "prepare L w =
     (case Image_open L ''ChangeList.png'' w of
        (Inl err, w1) \<Rightarrow> (Inl err, w1)
      | (Inr image_buf, w1) \<Rightarrow>
          (case size_im (bufs w1 ! image_buf) of (original_width, original_height) \<Rightarrow>
             (case new_height original_width original_height of
                Inl err \<Rightarrow> (Inl err, w1)
              | Inr nh \<Rightarrow>
                  (case resize L image_buf (new_width, nh) w1 of
                     (Inl err, w2) \<Rightarrow> (Inl err, w2)
                   | (Inr resized_image, w2) \<Rightarrow>
                       (case crop resized_image (left, top_y, right, bottom) w2 of
                          (Inl err, w3) \<Rightarrow> (Inl err, w3)
                        | (Inr cropped_image, w3) \<Rightarrow>
                            (Inr (image_buf, resized_image, cropped_image), w3))))))"

text \<open>The whole script: line 24 saves the cropped buffer.\<close>

definition script :: "pil \<Rightarrow> world \<Rightarrow> (py_error + nat \<times> nat \<times> nat) \<times> world" where
  "script L w =
     (case prepare L w of
        (Inl err, w3) \<Rightarrow> (Inl err, w3)
      | (Inr (image_buf, resized_image, cropped_image), w3) \<Rightarrow>
          (case save L cropped_image ''ChangeList_crop.png'' w3 of
             (Inl err, w4) \<Rightarrow> (Inl err, w4)
           | (Inr u, w4) \<Rightarrow> (Inr (image_buf, resized_image, cropped_image), w4)))"

subsection \<open>A test library and test worlds\<close>

text \<open>
  A toy codec for running the model: a file \<open>[W, H]\<close> decodes to a \<open>W \<times> H\<close> RGBA
  image with every pixel \<open>1\<close>; the filter picks the nearest source pixel; the encoder
  writes the size followed by the top-left pixel.
\<close>

definition test_image :: "nat \<Rightarrow> nat \<Rightarrow> image" where
  "test_image w0 h0 = \<lparr>size_im = (int w0, int h0), mode_im = ''RGBA'', pix = (\<lambda>x y. 1)\<rparr>"

definition test_pil :: pil where
  "test_pil =
     \<lparr>decode = (\<lambda>bs. case bs of [w0, h0] \<Rightarrow> Some (test_image w0 h0) | _ \<Rightarrow> None),
      lanczos = (\<lambda>im sz x y. pix im (x * fst (size_im im) div fst sz)
                                     (y * snd (size_im im) div snd sz)),
      encode_png = (\<lambda>im. Some [nat (fst (size_im im)), nat (snd (size_im im)), pix im 0 0]),
      failed_save = (\<lambda>im old. old)\<rparr>"

definition test_world :: "nat \<Rightarrow> nat \<Rightarrow> world" where
  "test_world w0 h0 =
     \<lparr>files = [''ChangeList.png'' \<mapsto> [w0, h0]], read_only = {}, bufs = []\<rparr>"

definition empty_world :: world where
  "empty_world = \<lparr>files = Map.empty, read_only = {}, bufs = []\<rparr>"

section \<open>Properties\<close>

subsection \<open>The float division truncates to the integer quotient\<close>

text \<open>
  Rounding to 53 bits cannot reach the next integer as long as the dividend is below
  \<open>2 ^ 53\<close>: the quotient is at least \<open>1 / b\<close> away from it, and the spacing of
  the floats there is finer than that.
\<close>

lemma div_succ_same:
  fixes q P :: int
  assumes "0 < P" "q mod P \<noteq> P - 1"
  shows "(q + 1) div P = q div P"
proof -
  have "0 \<le> q mod P" "q mod P < P" using assms(1) by simp_all
  then have small: "0 \<le> q mod P + 1" "q mod P + 1 < P" using assms(2) by linarith+
  have "q + 1 = (q mod P + 1) + (q div P) * P" by simp
  then have "(q + 1) div P = ((q mod P + 1) + (q div P) * P) div P" by (rule arg_cong)
  also have "\<dots> = q div P + (q mod P + 1) div P"
    using assms(1) by (intro div_mult_self1) simp
  also have "(q mod P + 1) div P = 0" using small by (simp add: div_pos_pos_trivial)
  finally show ?thesis by simp
qed

lemma int_div_le_dividend: "0 \<le> (a::int) \<Longrightarrow> 0 < b \<Longrightarrow> a div b \<le> a"
  by (metis div_pos_pos_trivial int_div_le_self leI nle_le)

lemma round_half_even_cases:
  "round_half_even n d = n div d \<or> (round_half_even n d = n div d + 1 \<and> d \<le> 2 * (n mod d))"
  by (auto simp: round_half_even_def Let_def)

lemma trunc_round:
  fixes a b :: int
  assumes a: "0 \<le> a" and b: "0 < b" and s: "b < 2 * 2 ^ s"
  shows "round_half_even (a * 2 ^ s) b div 2 ^ s = a div b"
proof -
  define P :: int where "P = 2 ^ s"
  define q where "q = (a * P) div b"
  define rr where "rr = (a * P) mod b"
  define n where "n = a div b"
  define r where "r = a mod b"
  have P: "0 < P" by (simp add: P_def)
  have qP: "q div P = n"
    unfolding q_def n_def using P
    by (metis div_mult_mult2 less_le_not_le zdiv_zmult2_eq)
  have r: "0 \<le> r" "r \<le> b - 1" using b by (simp_all add: r_def)
  have an: "a = n * b + r" by (simp add: n_def r_def)
  have aP: "a * P = q * b + rr" by (simp add: q_def rr_def)
  consider "round_half_even (a * P) b = q"
    | "round_half_even (a * P) b = q + 1" "b \<le> 2 * rr"
    using round_half_even_cases [of "a * P" b] by (auto simp: q_def rr_def)
  then have "round_half_even (a * P) b div P = n"
  proof cases
    case 1
    then show ?thesis using qP by simp
  next
    case 2
    have "q mod P \<noteq> P - 1"
    proof
      assume top: "q mod P = P - 1"
      have "q = n * P + (P - 1)"
        using qP top by (metis mult.commute mult_div_mod_eq)
      then have "a * P = (n * P + (P - 1)) * b + rr" using aP by simp
      then have "(n * b + r) * P = (n * P + (P - 1)) * b + rr" using an by simp
      then have rr: "rr = r * P - P * b + b" by (simp add: algebra_simps)
      have "r * P \<le> (b - 1) * P" using r P by (intro mult_right_mono) simp_all
      then have "rr \<le> b - P" using rr by (simp add: algebra_simps)
      then show False using 2(2) s by (simp add: P_def)
    qed
    then have "(q + 1) div P = q div P" using P by (rule div_succ_same [rotated])
    then show ?thesis using 2(1) qP by simp
  qed
  then show ?thesis by (simp add: P_def n_def)
qed

lemma round_half_even_le:
  fixes a b :: int
  assumes "0 \<le> a" "0 < b"
  shows "0 \<le> round_half_even a b" "round_half_even a b \<le> a div b + 1"
  using assms round_half_even_cases [of a b] pos_imp_zdiv_nonneg_iff [of b a] by auto

lemma bitlen_pos: "0 < a \<Longrightarrow> 1 \<le> bitlen a"
  using bitlen_eq_zero_iff [of a] bitlen_nonneg [of a] by linarith

lemma bitlen_le_53: "a < 2 ^ 53 \<Longrightarrow> bitlen a \<le> 53"
  using bitlen_le_iff_power [of a 53] by simp

lemma binade_range:
  assumes "0 < a" "0 < b"
  shows "bitlen a - bitlen b - 1 \<le> binade a b" "binade a b \<le> bitlen a - bitlen b"
  by (simp_all add: binade_def Let_def)

lemma binade_lower:
  assumes a: "0 < a" and b: "0 < b"
  shows "b * 2 ^ nat (binade a b) \<le> a * 2 ^ nat (- binade a b)"
proof (cases "b * 2 ^ nat (bitlen a - bitlen b) \<le> a * 2 ^ nat (- (bitlen a - bitlen b))")
  case True
  then show ?thesis by (simp add: binade_def Let_def)
next
  case False
  then have k: "binade a b = bitlen a - bitlen b - 1" by (simp add: binade_def Let_def)
  have la: "2 ^ nat (bitlen a - 1) \<le> a" using bitlen_bounds [OF a] by simp
  have lb: "b < 2 ^ nat (bitlen b)" using bitlen_bounds [OF b] by simp
  have pa: "1 \<le> bitlen a" and pb: "1 \<le> bitlen b" using a b by (simp_all add: bitlen_pos)
  show ?thesis
  proof (cases "1 \<le> bitlen a - bitlen b")
    case True
    have "b * 2 ^ nat (bitlen a - bitlen b - 1) \<le> 2 ^ nat (bitlen b) * 2 ^ nat (bitlen a - bitlen b - 1)"
      using lb by (intro mult_right_mono) simp_all
    also have "\<dots> = 2 ^ (nat (bitlen b) + nat (bitlen a - bitlen b - 1))"
      by (simp add: power_add)
    also have "nat (bitlen b) + nat (bitlen a - bitlen b - 1) = nat (bitlen a - 1)"
      using True pb by linarith
    finally have "b * 2 ^ nat (bitlen a - bitlen b - 1) \<le> a" using la by linarith
    moreover have "nat (- (bitlen a - bitlen b - 1)) = 0" using True by simp
    ultimately show ?thesis unfolding k by simp
  next
    case False
    then have z: "nat (bitlen a - bitlen b - 1) = 0" by simp
    have "nat (bitlen b) = nat (bitlen a - 1) + nat (- (bitlen a - bitlen b - 1))"
      using False pa by linarith
    then have "(2::int) ^ nat (bitlen b) = 2 ^ nat (bitlen a - 1) * 2 ^ nat (- (bitlen a - bitlen b - 1))"
      by (simp add: power_add)
    also have "\<dots> \<le> a * 2 ^ nat (- (bitlen a - bitlen b - 1))"
      using la by (intro mult_right_mono) simp_all
    finally show ?thesis unfolding k using lb z by simp
  qed
qed

lemma pow_split:
  fixes k :: int
  assumes "- 53 \<le> k" "k \<le> 52"
  shows "(2::int) ^ 53 * 2 ^ nat (- k) = 2 * 2 ^ nat (52 - k) * 2 ^ nat k"
proof -
  have "53 + nat (- k) = 1 + nat (52 - k) + nat k" using assms by linarith
  then have "(2::int) ^ (53 + nat (- k)) = 2 ^ (1 + nat (52 - k) + nat k)"
    by (rule arg_cong)
  then show ?thesis by (simp only: power_add power_one_right)
qed

lemma divide_pos_trunc:
  assumes a: "0 < a" "a < 2 ^ 53" and b: "0 < b" "b < 2 ^ 53"
  shows "\<exists>m e. divide_pos a b = Inr (m, e) \<and> 0 \<le> m \<and> py_int (m, e) = a div b"
proof -
  define k where "k = binade a b"
  define s where "s = nat (52 - k)"
  define m where "m = round_half_even (a * 2 ^ s) b"
  have "bitlen a \<le> 53" "bitlen b \<le> 53" "1 \<le> bitlen a" "1 \<le> bitlen b"
    using a b by (simp_all add: bitlen_le_53 bitlen_pos)
  then have k: "- 53 \<le> k" "k \<le> 52"
    using binade_range [of a b] a b unfolding k_def by linarith+
  then have e: "max (k - 52) (- 1074) = k - 52" "nat (- (k - 52)) = s" "nat (k - 52) = 0"
    by (simp_all add: s_def)
  have "b * 2 ^ nat k \<le> a * 2 ^ nat (- k)"
    using binade_lower [of a b] a b by (simp add: k_def)
  also have "\<dots> < 2 ^ 53 * 2 ^ nat (- k)"
    using a by (intro mult_strict_right_mono) simp_all
  also have "\<dots> = 2 * 2 ^ nat (52 - k) * 2 ^ nat k"
    using k by (rule pow_split)
  finally have bs: "b < 2 * 2 ^ s"
    by (simp add: s_def)
  have tr: "m div 2 ^ s = a div b"
    unfolding m_def using a b bs by (intro trunc_round) simp_all
  have m0: "0 \<le> m"
    unfolding m_def using a b by (intro round_half_even_le) simp_all
  have m53: "m \<le> 2 ^ 53" if "k = 52"
  proof -
    have "s = 0" using that by (simp add: s_def)
    then have "m \<le> a div b + 1"
      using round_half_even_le(2) [of a b] a b by (simp add: m_def)
    moreover have "a div b \<le> a" using a b by (simp add: int_div_le_dividend)
    ultimately show ?thesis using a by linarith
  qed
  have lt: "(2::int) ^ 53 < 2 ^ 1024"
    by (rule power_strict_increasing) simp_all
  have no_overflow: "\<not> (0 \<le> k - 52 \<and> (2::int) ^ 1024 \<le> m * 2 ^ nat (k - 52))"
  proof
    assume h: "0 \<le> k - 52 \<and> (2::int) ^ 1024 \<le> m * 2 ^ nat (k - 52)"
    then have "k = 52" using k by simp
    then have "m \<le> 2 ^ 53" by (rule m53)
    moreover have "2 ^ 1024 \<le> m" using h e(3) by (simp del: power_numeral)
    ultimately show False using lt by linarith
  qed
  have dp: "divide_pos a b = Inr (m, k - 52)"
    unfolding divide_pos_def k_def [symmetric] Let_def e mult_1_right power_0 m_def [symmetric]
    using no_overflow unfolding e by (simp del: power_numeral)
  have "py_int (m, k - 52) = a div b"
  proof (cases "k = 52")
    case True
    then have "s = 0" by (simp add: s_def)
    then show ?thesis using tr True by (simp add: py_int_def)
  next
    case False
    then have "\<not> 0 \<le> k - 52" using k by simp
    then show ?thesis using tr m0 e by (simp add: py_int_def)
  qed
  then show ?thesis using dp m0 by blast
qed

lemma py_true_divide_trunc:
  assumes a: "0 \<le> a" "a < 2 ^ 53" and b: "0 < b" "b < 2 ^ 53"
  shows "\<exists>x. py_true_divide a b = Inr x \<and> py_int x = a div b"
proof (cases "a = 0")
  case True
  then show ?thesis using b by (simp add: py_true_divide_def py_int_def)
next
  case False
  then have "0 < a" using a by simp
  from divide_pos_trunc [OF this a(2) b]
  obtain m e where "divide_pos a b = Inr (m, e)" "py_int (m, e) = a div b" by blast
  then show ?thesis using \<open>0 < a\<close> b by (simp add: py_true_divide_def)
qed

text \<open>
  The sides of a Pillow image are C \<open>int\<close>s, so a source image has
  \<open>W < 2 ^ 31\<close> and \<open>H < 2 ^ 31\<close>.
\<close>

lemma new_height_floor:
  assumes "0 < W" "W < 2 ^ 31" "0 \<le> H" "H < 2 ^ 31"
  shows "new_height W H = Inr (1200 * H div W)"
proof -
  have "1200 * H < 2 ^ 53" "W < 2 ^ 53" "0 \<le> 1200 * H" using assms by simp_all
  from py_true_divide_trunc [OF this(3) this(1) assms(1) this(2)]
  show ?thesis by (auto simp: new_height_def new_width_def)
qed

lemma divide_pos_error: "divide_pos a b = Inl err \<Longrightarrow> err = OverflowError"
  by (simp add: divide_pos_def Let_def split: if_splits)

lemma new_height_zero_division: "new_height W H = Inl ZeroDivisionError \<longleftrightarrow> W = 0"
  by (auto simp: new_height_def py_true_divide_def split: sum.splits prod.splits
      dest: divide_pos_error)

lemma height_ge_1: "0 < W \<Longrightarrow> W \<le> 1200 * H \<Longrightarrow> 1 \<le> 1200 * H div (W::int)"
  using pos_imp_zdiv_pos_iff [of W "1200 * H"] by simp

lemma height_ge_630: "0 < W \<Longrightarrow> 21 * W \<le> 40 * H \<Longrightarrow> 630 \<le> 1200 * H div (W::int)"
proof -
  assume W: "0 < W" and r: "21 * W \<le> 40 * H"
  have "630 * W div W \<le> 1200 * H div W"
    using r W by (intro zdiv_mono1) simp_all
  then show ?thesis using W by simp
qed

lemma height_less_630: "0 < W \<Longrightarrow> 40 * H < 21 * W \<Longrightarrow> 1200 * H div (W::int) < 630"
proof (rule ccontr)
  assume W: "0 < W" and r: "40 * H < 21 * W" and "\<not> 1200 * H div W < 630"
  then have "630 * W \<le> (1200 * H div W) * W"
    by (intro mult_right_mono) simp_all
  moreover have "1200 * H = (1200 * H div W) * W + 1200 * H mod W" by simp
  moreover have "0 \<le> 1200 * H mod W" using W by simp
  ultimately show False using r by linarith
qed

subsection \<open>The steps of the script\<close>

lemma crop_im_box:
  "crop_im im (left, top_y, right, bottom) =
     Inr \<lparr>size_im = (1200, 630), mode_im = mode_im im,
          pix = (\<lambda>x y. if 0 \<le> x \<and> x < fst (size_im im) \<and> 0 \<le> y \<and> y < snd (size_im im)
                       then pix im x y else 0)\<rparr>"
  by (simp add: crop_im_def left_def top_y_def right_def bottom_def cong: if_cong)

lemma resize_limits: "int_max = 2147483647" "int_min = - 2147483648" "max_side = 38347922"
  by (simp_all add: max_side_def int_max_def int_min_def lanczos_ksize_def)

lemma resize_im_ok:
  assumes "1 \<le> fst sz" "1 \<le> snd sz" "fst sz \<le> 38347922" "snd sz \<le> 38347922"
  shows "\<exists>rim. resize_im L im sz = Inr rim \<and> size_im rim = sz \<and> mode_im rim = mode_im im"
  using assms by (auto simp: resize_im_def resize_limits)

lemma resize_im_InrD:
  "resize_im L im sz = Inr rim \<Longrightarrow> size_im rim = sz \<and> mode_im rim = mode_im im"
  by (auto simp: resize_im_def split: if_splits)

lemma prepare_success:
  assumes "files w ''ChangeList.png'' = Some bs" "decode L bs = Some im"
    and "size_im im = (W, H)" "new_height W H = Inr nh"
    and "resize_im L im (new_width, nh) = Inr rim"
    and "crop_im rim (left, top_y, right, bottom) = Inr cim"
  shows "prepare L w =
     (Inr (length (bufs w), length (bufs w) + 1, length (bufs w) + 2),
      w\<lparr>bufs := bufs w @ [im, rim, cim]\<rparr>)"
  using assms by (simp add: prepare_def Image_open_def alloc_def resize_def crop_def nth_append)

lemma prepare_InrD:
  assumes "prepare L w = (Inr (i, r, c), w')"
  shows "\<exists>bs im W H nh rim cim.
          files w ''ChangeList.png'' = Some bs \<and> decode L bs = Some im
        \<and> size_im im = (W, H) \<and> new_height W H = Inr nh
        \<and> resize_im L im (new_width, nh) = Inr rim
        \<and> crop_im rim (left, top_y, right, bottom) = Inr cim
        \<and> i = length (bufs w) \<and> r = length (bufs w) + 1 \<and> c = length (bufs w) + 2
        \<and> w' = w\<lparr>bufs := bufs w @ [im, rim, cim]\<rparr>"
  using assms
  by (auto simp: prepare_def Image_open_def alloc_def resize_def crop_def nth_append
      split: option.splits sum.splits prod.splits)

lemma prepare_frame:
  assumes "prepare L w = (res, w')"
  shows "files w' = files w \<and> read_only w' = read_only w
       \<and> take (length (bufs w)) (bufs w') = bufs w"
  using assms
  by (auto simp: prepare_def Image_open_def alloc_def resize_def crop_def
      split: option.splits sum.splits prod.splits)

lemma script_success:
  assumes "prepare L w = (Inr (i, r, c), w3)"
    and "''ChangeList_crop.png'' \<notin> read_only w" "encode_png L (bufs w3 ! c) = Some out"
  shows "script L w = (Inr (i, r, c), w3\<lparr>files := (files w)(''ChangeList_crop.png'' \<mapsto> out)\<rparr>)"
  using assms prepare_frame [OF assms(1)] by (simp add: script_def save_def)

text \<open>
  How a run of the whole script can end: an error before the save, a destination that
  cannot be opened, an encoder that refuses the buffer, or a written file.
\<close>

lemma script_cases:
  assumes "script L w = (res, w')"
  obtains (early) err where "prepare L w = (Inl err, w')" "res = Inl err"
  | (locked) i r c where "prepare L w = (Inr (i, r, c), w')" "res = Inl PermissionError"
      "''ChangeList_crop.png'' \<in> read_only w"
  | (unsaved) i r c w3 where "prepare L w = (Inr (i, r, c), w3)" "res = Inl OSError"
      "''ChangeList_crop.png'' \<notin> read_only w" "encode_png L (bufs w3 ! c) = None"
      "w' = w3\<lparr>files := (files w)(''ChangeList_crop.png'' :=
          failed_save L (bufs w3 ! c) (files w ''ChangeList_crop.png''))\<rparr>"
  | (saved) i r c w3 out where "prepare L w = (Inr (i, r, c), w3)" "res = Inr (i, r, c)"
      "''ChangeList_crop.png'' \<notin> read_only w" "encode_png L (bufs w3 ! c) = Some out"
      "w' = w3\<lparr>files := (files w)(''ChangeList_crop.png'' \<mapsto> out)\<rparr>"
proof (cases "prepare L w")
  case (Pair res3 w3)
  note fr = prepare_frame [OF Pair]
  show ?thesis
  proof (cases res3)
    case (Inl err)
    have "script L w = (Inl err, w3)" using Pair Inl by (simp add: script_def)
    with assms have "res = Inl err" "w3 = w'" by simp_all
    then show ?thesis using Pair Inl by (intro early [of err]) simp_all
  next
    case (Inr v)
    obtain i r c where v: "v = (i, r, c)" by (cases v)
    have p: "prepare L w = (Inr (i, r, c), w3)" using Pair Inr v by simp
    show ?thesis
    proof (cases "''ChangeList_crop.png'' \<in> read_only w")
      case True
      have "script L w = (Inl PermissionError, w3)"
        using p True fr by (simp add: script_def save_def)
      with assms have "res = Inl PermissionError" "w3 = w'" by simp_all
      then show ?thesis using p True by (intro locked [of i r c]) simp_all
    next
      case False
      show ?thesis
      proof (cases "encode_png L (bufs w3 ! c)")
        case None
        have "script L w = (Inl OSError, w3\<lparr>files := (files w)(''ChangeList_crop.png'' :=
          failed_save L (bufs w3 ! c) (files w ''ChangeList_crop.png''))\<rparr>)"
          using p False None fr by (simp add: script_def save_def)
        with assms have "res = Inl OSError"
          "w' = w3\<lparr>files := (files w)(''ChangeList_crop.png'' :=
              failed_save L (bufs w3 ! c) (files w ''ChangeList_crop.png''))\<rparr>"
          by simp_all
        then show ?thesis using p False None by (intro unsaved [of i r c w3])
      next
        case (Some out)
        have "script L w = (Inr (i, r, c),
            w3\<lparr>files := (files w)(''ChangeList_crop.png'' \<mapsto> out)\<rparr>)"
          using p False Some fr by (simp add: script_def save_def)
        with assms have "res = Inr (i, r, c)"
          "w' = w3\<lparr>files := (files w)(''ChangeList_crop.png'' \<mapsto> out)\<rparr>"
          by simp_all
        then show ?thesis using p False Some by (intro saved [of i r c w3 out])
      qed
    qed
  qed
qed

lemma script_frame:
  assumes "script L w = (res, w')"
  shows "read_only w' = read_only w" "take (length (bufs w)) (bufs w') = bufs w"
    "p \<noteq> ''ChangeList_crop.png'' \<Longrightarrow> files w' p = files w p"
proof -
  have "read_only w' = read_only w \<and> take (length (bufs w)) (bufs w') = bufs w
      \<and> (p \<noteq> ''ChangeList_crop.png'' \<longrightarrow> files w' p = files w p)"
    using assms
  proof (cases rule: script_cases)
    case (early err)
    from prepare_frame [OF early(1)] show ?thesis by simp
  next
    case (locked i r c)
    from prepare_frame [OF locked(1)] show ?thesis by simp
  next
    case (unsaved i r c w3)
    from prepare_frame [OF unsaved(1)] show ?thesis unfolding unsaved(5) by simp
  next
    case (saved i r c w3 out)
    from prepare_frame [OF saved(1)] show ?thesis unfolding saved(5) by simp
  qed
  then show "read_only w' = read_only w" "take (length (bufs w)) (bufs w') = bufs w"
    "p \<noteq> ''ChangeList_crop.png'' \<Longrightarrow> files w' p = files w p"
    by simp_all
qed

text \<open>
  A source of size \<open>(W, H)\<close> whose new height is at least 1 and at most 38347922
  goes through the three steps before the save.
\<close>

lemma prepare_run:
  assumes src: "files w ''ChangeList.png'' = Some bs" "decode L bs = Some im"
      "size_im im = (W, H)"
    and dims: "0 < W" "W < 2 ^ 31" "H < 2 ^ 31" "W \<le> 1200 * H"
      "1200 * H div W \<le> 38347922"
  obtains rim cim where
    "size_im rim = (1200, 1200 * H div W)" "mode_im rim = mode_im im"
    "(W, H) = (1200, 1200 * H div W) \<longrightarrow> rim = im"
    "size_im cim = (1200, 630)" "mode_im cim = mode_im rim"
    "\<And>x y. pix cim x y =
       (if 0 \<le> x \<and> x < 1200 \<and> 0 \<le> y \<and> y < 1200 * H div W then pix rim x y else 0)"
    "prepare L w =
       (Inr (length (bufs w), length (bufs w) + 1, length (bufs w) + 2),
        w\<lparr>bufs := bufs w @ [im, rim, cim]\<rparr>)"
proof -
  have H: "0 \<le> H" using dims by linarith
  have nh: "new_height W H = Inr (1200 * H div W)"
    using dims H by (intro new_height_floor) simp_all
  have th: "1 \<le> 1200 * H div W" using dims by (intro height_ge_1) simp_all
  then obtain rim where rim: "resize_im L im (new_width, 1200 * H div W) = Inr rim"
    "size_im rim = (1200, 1200 * H div W)" "mode_im rim = mode_im im"
    using resize_im_ok [of "(new_width, 1200 * H div W)" L im] dims(5)
    by (auto simp: new_width_def)
  have same: "(W, H) = (1200, 1200 * H div W) \<longrightarrow> rim = im"
    using rim(1) src(3) by (auto simp: resize_im_def new_width_def)
  define cim where "cim = \<lparr>size_im = (1200, 630), mode_im = mode_im rim,
          pix = (\<lambda>x y. if 0 \<le> x \<and> x < fst (size_im rim) \<and> 0 \<le> y \<and> y < snd (size_im rim)
                       then pix rim x y else 0)\<rparr>"
  have cim: "crop_im rim (left, top_y, right, bottom) = Inr cim"
    unfolding cim_def by (rule crop_im_box)
  have "prepare L w =
       (Inr (length (bufs w), length (bufs w) + 1, length (bufs w) + 2),
        w\<lparr>bufs := bufs w @ [im, rim, cim]\<rparr>)"
    using src nh rim(1) cim by (rule prepare_success)
  moreover have "\<And>x y. pix cim x y =
       (if 0 \<le> x \<and> x < 1200 \<and> 0 \<le> y \<and> y < 1200 * H div W then pix rim x y else 0)"
    by (simp add: cim_def rim(2))
  moreover have "size_im cim = (1200, 630)" "mode_im cim = mode_im rim"
    by (simp_all add: cim_def)
  ultimately show ?thesis using that rim(2,3) same by blast
qed

text \<open>
  The script reads nothing but the source file: when a run succeeds, a run in any
  directory whose source file has the same bytes, with a writable destination, succeeds
  and writes the same bytes. The decoder, the filter and the encoder are functions of
  their arguments here, as everything in HOL is; whether two runs of Pillow's
  resampling and encoding give the same bytes is not a statement about this model.
\<close>

lemma script_source_only:
  assumes run: "script L w = (Inr v, w')"
    and src: "files w2 ''ChangeList.png'' = files w ''ChangeList.png''"
    and ro: "''ChangeList_crop.png'' \<notin> read_only w2"
  shows "\<exists>v2 w2'. script L w2 = (Inr v2, w2')
           \<and> files w2' ''ChangeList_crop.png'' = files w' ''ChangeList_crop.png''"
  using run
proof (cases rule: script_cases)
  case (saved i r c w3 out)
  from prepare_InrD [OF saved(1)]
  obtain bs im W H nh rim cim where
    a: "files w ''ChangeList.png'' = Some bs" "decode L bs = Some im"
      "size_im im = (W, H)" "new_height W H = Inr nh"
      "resize_im L im (new_width, nh) = Inr rim"
      "crop_im rim (left, top_y, right, bottom) = Inr cim"
    and c: "c = length (bufs w) + 2"
    and w3: "w3 = w\<lparr>bufs := bufs w @ [im, rim, cim]\<rparr>"
    by (elim exE conjE)
  have enc: "encode_png L cim = Some out"
    using saved(4) by (simp add: w3 c nth_append)
  have p2: "prepare L w2 =
     (Inr (length (bufs w2), length (bufs w2) + 1, length (bufs w2) + 2),
      w2\<lparr>bufs := bufs w2 @ [im, rim, cim]\<rparr>)"
    using a(1) [folded src] a(2-6) by (rule prepare_success)
  have "script L w2 =
     (Inr (length (bufs w2), length (bufs w2) + 1, length (bufs w2) + 2),
      w2\<lparr>bufs := bufs w2 @ [im, rim, cim]\<rparr>\<lparr>files := (files w2)(''ChangeList_crop.png'' \<mapsto> out)\<rparr>)"
    using p2 ro by (rule script_success) (simp add: nth_append enc)
  then show ?thesis by (simp add: saved(5))
qed simp_all

subsection \<open>The test library\<close>

lemmas run_defs = script_def prepare_def Image_open_def resize_def resize_im_def resize_limits
  crop_def
  crop_im_def save_def alloc_def test_pil_def test_image_def test_world_def empty_world_def left_def
  top_y_def right_def bottom_def new_width_def new_height_def py_true_divide_def
  divide_pos_def binade_def round_half_even_def py_int_def compute_bitlen

lemma test_world_simps:
  "files (test_world a b) ''ChangeList.png'' = Some [a, b]"
  "read_only (test_world a b) = {}"
  "bufs (test_world a b) = []"
  by (simp_all add: test_world_def)

lemma test_pil_simps:
  "decode test_pil [a, b] = Some (test_image a b)"
  "encode_png test_pil im \<noteq> None"
  by (simp_all add: test_pil_def)

lemma test_image_simps:
  "size_im (test_image a b) = (int a, int b)"
  "mode_im (test_image a b) = ''RGBA''"
  by (simp_all add: test_image_def)

subsection \<open>C1: a source at least 0.525 times as high as wide\<close>

text \<open>
  C1, as stated, fails: a 1 by 32000 source has \<open>H / W \<ge> 0.525\<close>, its new height is
  38400000, which is above the 38347922 rows that the filter accepts, and \<open>resize\<close>
  raises \<open>MemoryError\<close>; no output file is written.
\<close>

theorem C1_tall_source_counterexample:
  "new_height 1 32000 = Inr 38400000
   \<and> fst (script test_pil (test_world 1 32000)) = Inl MemoryError
   \<and> files (snd (script test_pil (test_world 1 32000))) ''ChangeList_crop.png'' = None"
  by (simp add: run_defs)

text \<open>
  C1, amended: for every source image of size \<open>(W, H)\<close> with \<open>0 < W\<close>,
  \<open>H / W \<ge> 0.525\<close> (that is \<open>21 * W \<le> 40 * H\<close>) and a new height
  \<open>\<lfloor>1200 * H / W\<rfloor>\<close> of at most 38347922, the four steps succeed when the destination
  is writable and the encoder accepts a 1200 by 630 buffer of the source's mode; the
  cropped buffer that is saved is exactly 1200 by 630, and its mode is that of the
  resized buffer, which is that of the source; the file written is its encoding.
\<close>

theorem C1_output_1200x630:
  assumes "files w ''ChangeList.png'' = Some bs" and "decode L bs = Some im"
    and "size_im im = (W, H)"
    and "0 < W" and "W < 2 ^ 31" and "H < 2 ^ 31" and "21 * W \<le> 40 * H"
    and "1200 * H div W \<le> 38347922"
    and "''ChangeList_crop.png'' \<notin> read_only w"
    and "\<forall>out. size_im out = (1200, 630) \<and> mode_im out = mode_im im
           \<longrightarrow> encode_png L out \<noteq> None"
  shows "\<exists>i r c w'. script L w = (Inr (i, r, c), w')
           \<and> size_im (bufs w' ! c) = (1200, 630)
           \<and> mode_im (bufs w' ! c) = mode_im (bufs w' ! r)
           \<and> mode_im (bufs w' ! r) = mode_im im
           \<and> files w' ''ChangeList_crop.png'' = encode_png L (bufs w' ! c)
           \<and> files w' ''ChangeList_crop.png'' \<noteq> None"
proof -
  have "630 \<le> 1200 * H div W" using assms(4,7) by (rule height_ge_630)
  then have th: "W \<le> 1200 * H"
    using assms(4) pos_imp_zdiv_pos_iff [of W "1200 * H"] by simp
  obtain rim cim where
    rim: "size_im rim = (1200, 1200 * H div W)" "mode_im rim = mode_im im"
      "(W, H) = (1200, 1200 * H div W) \<longrightarrow> rim = im"
    and cim: "size_im cim = (1200, 630)" "mode_im cim = mode_im rim"
      "\<And>x y. pix cim x y =
         (if 0 \<le> x \<and> x < 1200 \<and> 0 \<le> y \<and> y < 1200 * H div W then pix rim x y else 0)"
    and p: "prepare L w =
       (Inr (length (bufs w), length (bufs w) + 1, length (bufs w) + 2),
        w\<lparr>bufs := bufs w @ [im, rim, cim]\<rparr>)"
    by (rule prepare_run [OF assms(1,2,3,4,5,6) th assms(8)]) (rule that)
  obtain out where out: "encode_png L cim = Some out"
    using assms(10) rim(2) cim(1,2) by fastforce
  have "script L w = (Inr (length (bufs w), length (bufs w) + 1, length (bufs w) + 2),
      w\<lparr>bufs := bufs w @ [im, rim, cim]\<rparr>\<lparr>files := (files w)(''ChangeList_crop.png'' \<mapsto> out)\<rparr>)"
    using p assms(9) by (rule script_success) (simp add: nth_append out)
  then show ?thesis using rim(2) cim(1,2) out by (simp add: nth_append)
qed

text \<open>
  A run on a 1600 by 900 source.
\<close>

theorem C1_output_1200x630_witness:
  "\<exists>i r c w'. script test_pil (test_world 1600 900) = (Inr (i, r, c), w')
     \<and> size_im (bufs w' ! c) = (1200, 630)
     \<and> mode_im (bufs w' ! c) = mode_im (bufs w' ! r)
     \<and> mode_im (bufs w' ! r) = mode_im (test_image 1600 900)
     \<and> files w' ''ChangeList_crop.png'' = encode_png test_pil (bufs w' ! c)
     \<and> files w' ''ChangeList_crop.png'' \<noteq> None"
proof -
  have sz: "size_im (test_image 1600 900) = (1600, 900)"
    by (simp add: test_image_simps)
  have ro: "''ChangeList_crop.png'' \<notin> read_only (test_world 1600 900)"
    by (simp add: test_world_simps)
  have enc: "\<forall>out. size_im out = (1200, 630) \<and> mode_im out = mode_im (test_image 1600 900)
           \<longrightarrow> encode_png test_pil out \<noteq> None"
    by (simp add: test_pil_simps)
  show ?thesis
    by (rule C1_output_1200x630 [OF test_world_simps(1) test_pil_simps(1) sz _ _ _ _ _ ro enc])
      simp_all
qed

subsection \<open>C2: a resized height below 630\<close>

text \<open>
  C2, as stated, fails: a 1000 by 400 source is resized to a height of 480 and the
  crop raises nothing; the script runs to its end.
\<close>

theorem C2_crop_1000x400_counterexample:
  "new_height 1000 400 = Inr 480
   \<and> fst (script test_pil (test_world 1000 400)) = Inr (0, 1, 2)"
  by (simp add: run_defs)

text \<open>
  C2, amended: the crop with the box \<open>(0, 0, 1200, 630)\<close> never fails, whatever
  the height of the resized buffer is, also below 630: it returns a new buffer of 1200
  by 630 and of the same mode.
\<close>

theorem C2_crop_never_fails:
  "\<exists>c w'. crop r (left, top_y, right, bottom) w = (Inr c, w')
      \<and> size_im (bufs w' ! c) = (1200, 630)
      \<and> mode_im (bufs w' ! c) = mode_im (bufs w ! r)"
  by (simp add: crop_def crop_im_box alloc_def)

subsection \<open>C3: the new height is the floor of \<open>1200 * H / W\<close>\<close>

text \<open>
  C3, as stated, fails in its second half: for a 1201 by 1 source the new height is
  \<open>0\<close>, and \<open>resize\<close> raises \<open>ValueError\<close> instead of returning a buffer of
  size \<open>(1200, 0)\<close>.
\<close>

theorem C3_height_zero_counterexample:
  "new_height 1201 1 = Inr 0
   \<and> fst (resize test_pil 0 (new_width, 0) \<lparr>files = Map.empty, read_only = {},
        bufs = [test_image 1201 1]\<rparr>) = Inl ValueError
   \<and> fst (script test_pil (test_world 1201 1)) = Inl ValueError"
  by (simp add: run_defs)

text \<open>
  C3, amended: for every source image with \<open>0 < W\<close> and \<open>0 \<le> H\<close> the new height
  computed by line 11 is exactly \<open>\<lfloor>1200 * H / W\<rfloor>\<close>; when that height is at least 1
  and at most 38347922, the resize returns a buffer of size
  \<open>(1200, \<lfloor>1200 * H / W\<rfloor>)\<close>.
\<close>

theorem C3_new_height_floor:
  assumes "size_im (bufs w ! r) = (W, H)"
    and "0 < W" and "W < 2 ^ 31" and "0 \<le> H" and "H < 2 ^ 31"
  shows "new_height W H = Inr (1200 * H div W)
       \<and> (1 \<le> 1200 * H div W \<and> 1200 * H div W \<le> 38347922 \<longrightarrow>
            (\<exists>r' w'. resize L r (new_width, 1200 * H div W) w = (Inr r', w')
               \<and> size_im (bufs w' ! r') = (1200, 1200 * H div W)))"
proof -
  have "new_height W H = Inr (1200 * H div W)"
    using assms(2-5) by (rule new_height_floor)
  moreover have "\<exists>r' w'. resize L r (new_width, 1200 * H div W) w = (Inr r', w')
               \<and> size_im (bufs w' ! r') = (1200, 1200 * H div W)"
    if "1 \<le> 1200 * H div W" "1200 * H div W \<le> 38347922"
  proof -
    have "1 \<le> fst (new_width, 1200 * H div W)" "1 \<le> snd (new_width, 1200 * H div W)"
      "fst (new_width, 1200 * H div W) \<le> 38347922"
      "snd (new_width, 1200 * H div W) \<le> 38347922"
      using that by (simp_all add: new_width_def)
    from resize_im_ok [OF this, of L "bufs w ! r"]
    obtain rim where "resize_im L (bufs w ! r) (new_width, 1200 * H div W) = Inr rim"
      "size_im rim = (new_width, 1200 * H div W)"
      by (elim exE conjE)
    then show ?thesis by (simp add: resize_def alloc_def new_width_def)
  qed
  ultimately show ?thesis by blast
qed

text \<open>
  A 1000 by 400 source: the new height is 480.
\<close>

theorem C3_new_height_floor_witness:
  "new_height 1000 400 = Inr 480
     \<and> (1::int) \<le> 1200 * 400 div 1000 \<and> (1200::int) * 400 div 1000 \<le> 38347922
     \<and> (\<exists>r' w'. resize test_pil 0 (new_width, 480)
                 \<lparr>files = Map.empty, read_only = {}, bufs = [test_image 1000 400]\<rparr>
               = (Inr r', w')
             \<and> size_im (bufs w' ! r') = (1200, 480))"
proof -
  have "size_im (bufs \<lparr>files = Map.empty, read_only = {}, bufs = [test_image 1000 400]\<rparr> ! 0)
      = (1000, 400)"
    by (simp add: test_image_simps)
  from C3_new_height_floor [OF this, of test_pil] show ?thesis by simp
qed

subsection \<open>C4: division by zero\<close>

text \<open>
  C4, as stated, fails: a source of height zero and width 1200 does not raise at
  line 11; the new height is \<open>0\<close>.
\<close>

theorem C4_zero_height_counterexample: "new_height 1200 0 = Inr 0"
  by (simp add: new_height_def py_true_divide_def py_int_def new_width_def)

text \<open>
  C4, amended: line 11 raises \<open>ZeroDivisionError\<close> exactly when the source width is
  zero, whatever the height; with a height of zero and a width other than zero it
  raises nothing and the new height is \<open>0\<close>.
\<close>

theorem C4_division_by_zero:
  "(new_height W H = Inl ZeroDivisionError \<longleftrightarrow> W = 0)
   \<and> (W \<noteq> 0 \<longrightarrow> new_height W 0 = Inr 0)"
  by (simp add: new_height_zero_division)
     (simp add: new_height_def py_true_divide_def py_int_def)

text \<open>
  Widths and heights of zero, one at a time and together.
\<close>

theorem C4_division_by_zero_witness:
  "new_height 0 630 = Inl ZeroDivisionError \<and> new_height 0 0 = Inl ZeroDivisionError
   \<and> new_height 1200 630 \<noteq> Inl ZeroDivisionError \<and> new_height 1200 0 = Inr 0"
  using C4_division_by_zero [of 0 630] C4_division_by_zero [of 0 0]
    C4_division_by_zero [of 1200 630] C4_division_by_zero [of 1200 0]
  by simp

subsection \<open>C6: a failure before the save leaves the files alone\<close>

text \<open>
  C6: when a step before the save fails (lines 4 to 21), the script ends with that
  error and the files are those it started with: no \<open>ChangeList_crop.png\<close> is created
  and one that exists is not modified.
\<close>

theorem C6_failure_before_save:
  assumes "prepare L w = (Inl err, w')"
  shows "script L w = (Inl err, w') \<and> files w' = files w"
  using assms prepare_frame [OF assms] by (simp add: script_def)

text \<open>
  The source file is missing: the run fails at \<open>Image.open\<close> and no output exists.
\<close>

theorem C6_failure_before_save_witness:
  "prepare test_pil empty_world = (Inl FileNotFoundError, empty_world)
   \<and> script test_pil empty_world = (Inl FileNotFoundError, empty_world)
   \<and> files empty_world = files empty_world
   \<and> files empty_world ''ChangeList_crop.png'' = None"
proof -
  have p: "prepare test_pil empty_world = (Inl FileNotFoundError, empty_world)"
    by (simp add: prepare_def Image_open_def empty_world_def)
  from C6_failure_before_save [OF p] p show ?thesis by (simp add: empty_world_def)
qed

subsection \<open>C7: a source that is a multiple of 1200 by 630\<close>

text \<open>
  C7: for every source image of size \<open>(1200 * k, 630 * k)\<close> with \<open>1 \<le> k\<close>, the
  resized buffer is exactly 1200 by 630 (the source itself, copied, when \<open>k = 1\<close>), the
  crop box is the whole resized buffer, and the cropped buffer has the size, the mode
  and every pixel of the resized one.
\<close>

theorem C7_exact_multiple:
  assumes "files w ''ChangeList.png'' = Some bs" and "decode L bs = Some im"
    and "size_im im = (1200 * k, 630 * k)" and "1 \<le> k" and "1200 * k < 2 ^ 31"
  shows "\<exists>i r c w'. prepare L w = (Inr (i, r, c), w')
           \<and> size_im (bufs w' ! r) = (1200, 630)
           \<and> (k = 1 \<longrightarrow> bufs w' ! r = im)
           \<and> (left, top_y, right, bottom)
               = (0, 0, fst (size_im (bufs w' ! r)), snd (size_im (bufs w' ! r)))
           \<and> size_im (bufs w' ! c) = size_im (bufs w' ! r)
           \<and> mode_im (bufs w' ! c) = mode_im (bufs w' ! r)
           \<and> (\<forall>x y. 0 \<le> x \<and> x < 1200 \<and> 0 \<le> y \<and> y < 630
                 \<longrightarrow> pix (bufs w' ! c) x y = pix (bufs w' ! r) x y)"
proof -
  have k: "0 < 1200 * k" "630 * k < 2 ^ 31" "1200 * k \<le> 1200 * (630 * k)"
    using assms(4,5) by simp_all
  have d: "1200 * (630 * k) div (1200 * k) = 630"
    using assms(4) by simp
  then have d': "1200 * (630 * k) div (1200 * k) \<le> 38347922"
    by simp
  obtain rim cim where
    rim: "size_im rim = (1200, 1200 * (630 * k) div (1200 * k))" "mode_im rim = mode_im im"
      "(1200 * k, 630 * k) = (1200, 1200 * (630 * k) div (1200 * k)) \<longrightarrow> rim = im"
    and cim: "size_im cim = (1200, 630)" "mode_im cim = mode_im rim"
      "\<And>x y. pix cim x y =
         (if 0 \<le> x \<and> x < 1200 \<and> 0 \<le> y \<and> y < 1200 * (630 * k) div (1200 * k)
          then pix rim x y else 0)"
    and p: "prepare L w =
       (Inr (length (bufs w), length (bufs w) + 1, length (bufs w) + 2),
        w\<lparr>bufs := bufs w @ [im, rim, cim]\<rparr>)"
    by (rule prepare_run [OF assms(1,2,3) k(1) assms(5) k(2,3) d']) (rule that)
  show ?thesis
    using rim cim unfolding p d
    by (simp add: nth_append left_def top_y_def right_def bottom_def)
qed

text \<open>
  A 2400 by 1260 source.
\<close>

theorem C7_exact_multiple_witness:
  "\<exists>i r c w'. prepare test_pil (test_world 2400 1260) = (Inr (i, r, c), w')
           \<and> size_im (bufs w' ! r) = (1200, 630)
           \<and> (left, top_y, right, bottom)
               = (0, 0, fst (size_im (bufs w' ! r)), snd (size_im (bufs w' ! r)))
           \<and> size_im (bufs w' ! c) = size_im (bufs w' ! r)
           \<and> mode_im (bufs w' ! c) = mode_im (bufs w' ! r)
           \<and> pix (bufs w' ! c) 1199 629 = pix (bufs w' ! r) 1199 629"
proof -
  have sz: "size_im (test_image 2400 1260) = (1200 * 2, 630 * 2)"
    by (simp add: test_image_simps)
  have "(1::int) \<le> 2" "1200 * (2::int) < 2 ^ 31" by simp_all
  from C7_exact_multiple [OF test_world_simps(1) test_pil_simps(1) sz this]
  show ?thesis by fastforce
qed

subsection \<open>C8: a short source is padded\<close>

text \<open>
  C8, as stated, fails: a 2400 by 1 source has \<open>H / W < 0.525\<close>, its new height is
  \<open>0\<close>, \<open>resize\<close> raises \<open>ValueError\<close>, and no output file is written.
\<close>

theorem C8_tiny_height_counterexample:
  "fst (script test_pil (test_world 2400 1)) = Inl ValueError
   \<and> files (snd (script test_pil (test_world 2400 1))) ''ChangeList_crop.png'' = None"
  by (simp add: run_defs)

text \<open>
  C8, amended: for every source image with \<open>0 < W\<close>, \<open>H / W < 0.525\<close> and a new
  height of at least 1 (that is \<open>W \<le> 1200 * H\<close>), the crop does not raise; the
  cropped buffer is 1200 by 630, its rows from the resized height on are zero, the rows
  above are those of the resized buffer, and the save writes its encoding.
\<close>

theorem C8_short_source_padded:
  assumes "files w ''ChangeList.png'' = Some bs" and "decode L bs = Some im"
    and "size_im im = (W, H)"
    and "0 < W" and "W < 2 ^ 31" and "H < 2 ^ 31"
    and "W \<le> 1200 * H" and "40 * H < 21 * W"
    and "''ChangeList_crop.png'' \<notin> read_only w"
    and "\<forall>out. size_im out = (1200, 630) \<and> mode_im out = mode_im im
           \<longrightarrow> encode_png L out \<noteq> None"
  shows "\<exists>i r c w'. script L w = (Inr (i, r, c), w')
           \<and> size_im (bufs w' ! r) = (1200, 1200 * H div W)
           \<and> 1 \<le> 1200 * H div W \<and> 1200 * H div W < 630
           \<and> size_im (bufs w' ! c) = (1200, 630)
           \<and> (\<forall>x y. 1200 * H div W \<le> y \<longrightarrow> pix (bufs w' ! c) x y = 0)
           \<and> (\<forall>x y. 0 \<le> x \<and> x < 1200 \<and> 0 \<le> y \<and> y < 1200 * H div W
                 \<longrightarrow> pix (bufs w' ! c) x y = pix (bufs w' ! r) x y)
           \<and> files w' ''ChangeList_crop.png'' = encode_png L (bufs w' ! c)
           \<and> files w' ''ChangeList_crop.png'' \<noteq> None"
proof -
  have lo: "1 \<le> 1200 * H div W" using assms(4,7) by (rule height_ge_1)
  have hi: "1200 * H div W < 630" using assms(4,8) by (rule height_less_630)
  then have hi': "1200 * H div W \<le> 38347922" by simp
  obtain rim cim where
    rim: "size_im rim = (1200, 1200 * H div W)" "mode_im rim = mode_im im"
      "(W, H) = (1200, 1200 * H div W) \<longrightarrow> rim = im"
    and cim: "size_im cim = (1200, 630)" "mode_im cim = mode_im rim"
      "\<And>x y. pix cim x y =
         (if 0 \<le> x \<and> x < 1200 \<and> 0 \<le> y \<and> y < 1200 * H div W then pix rim x y else 0)"
    and p: "prepare L w =
       (Inr (length (bufs w), length (bufs w) + 1, length (bufs w) + 2),
        w\<lparr>bufs := bufs w @ [im, rim, cim]\<rparr>)"
    by (rule prepare_run [OF assms(1,2,3,4,5,6,7) hi']) (rule that)
  obtain out where out: "encode_png L cim = Some out"
    using assms(10) rim(2) cim(1,2) by fastforce
  have "script L w = (Inr (length (bufs w), length (bufs w) + 1, length (bufs w) + 2),
      w\<lparr>bufs := bufs w @ [im, rim, cim]\<rparr>\<lparr>files := (files w)(''ChangeList_crop.png'' \<mapsto> out)\<rparr>)"
    using p assms(9) by (rule script_success) (simp add: nth_append out)
  then show ?thesis using rim(1) cim(1,3) out lo hi by (simp add: nth_append)
qed

text \<open>
  A 1000 by 400 source: row 479 is copied, row 480 is zero.
\<close>

theorem C8_short_source_padded_witness:
  "\<exists>i r c w'. script test_pil (test_world 1000 400) = (Inr (i, r, c), w')
           \<and> size_im (bufs w' ! r) = (1200, 1200 * 400 div 1000)
           \<and> size_im (bufs w' ! c) = (1200, 630)
           \<and> pix (bufs w' ! c) 0 480 = 0
           \<and> pix (bufs w' ! c) 0 479 = pix (bufs w' ! r) 0 479
           \<and> files w' ''ChangeList_crop.png'' = encode_png test_pil (bufs w' ! c)
           \<and> files w' ''ChangeList_crop.png'' \<noteq> None"
proof -
  have sz: "size_im (test_image 1000 400) = (1000, 400)"
    by (simp add: test_image_simps)
  have ro: "''ChangeList_crop.png'' \<notin> read_only (test_world 1000 400)"
    by (simp add: test_world_simps)
  have enc: "\<forall>out. size_im out = (1200, 630) \<and> mode_im out = mode_im (test_image 1000 400)
           \<longrightarrow> encode_png test_pil out \<noteq> None"
    by (simp add: test_pil_simps)
  have d: "(0::int) < 1000" "(1000::int) < 2 ^ 31" "(400::int) < 2 ^ 31"
    "(1000::int) \<le> 1200 * 400" "40 * (400::int) < 21 * 1000"
    by simp_all
  from C8_short_source_padded [OF test_world_simps(1) test_pil_simps(1) sz d ro enc]
  obtain i r c w' where
    "script test_pil (test_world 1000 400) = (Inr (i, r, c), w')"
    "size_im (bufs w' ! r) = (1200, 1200 * 400 div 1000)"
    "size_im (bufs w' ! c) = (1200, 630)"
    "\<forall>x y. 1200 * 400 div 1000 \<le> y \<longrightarrow> pix (bufs w' ! c) x y = 0"
    "\<forall>x y. 0 \<le> x \<and> x < 1200 \<and> 0 \<le> y \<and> y < 1200 * 400 div 1000
                 \<longrightarrow> pix (bufs w' ! c) x y = pix (bufs w' ! r) x y"
    "files w' ''ChangeList_crop.png'' = encode_png test_pil (bufs w' ! c)"
    "files w' ''ChangeList_crop.png'' \<noteq> None"
    by (elim exE conjE)
  moreover from this(4) have "pix (bufs w' ! c) 0 480 = 0" by simp
  moreover from calculation(5) have "pix (bufs w' ! c) 0 479 = pix (bufs w' ! r) 0 479" by simp
  ultimately show ?thesis by blast
qed

subsection \<open>C9: the source is not modified\<close>

text \<open>
  C9: whatever a run does, the file \<open>ChangeList.png\<close> keeps its bytes, every file
  other than \<open>ChangeList_crop.png\<close> keeps its bytes, and the buffers that existed keep
  their contents; after a successful run \<open>image\<close>, \<open>resized_image\<close> and
  \<open>cropped_image\<close> are three different buffers and \<open>image\<close> still holds what the
  decoder returned for the source file.
\<close>

theorem C9_source_untouched:
  assumes "script L w = (res, w')"
  shows "files w' ''ChangeList.png'' = files w ''ChangeList.png''
       \<and> (\<forall>p. p \<noteq> ''ChangeList_crop.png'' \<longrightarrow> files w' p = files w p)
       \<and> take (length (bufs w)) (bufs w') = bufs w
       \<and> (\<forall>i r c. res = Inr (i, r, c) \<longrightarrow>
             length (bufs w) \<le> i \<and> i < r \<and> r < c \<and> c < length (bufs w')
             \<and> (\<exists>bs. files w ''ChangeList.png'' = Some bs
                    \<and> decode L bs = Some (bufs w' ! i)))"
proof -
  have "files w' ''ChangeList.png'' = files w ''ChangeList.png''"
    by (rule script_frame(3) [OF assms]) simp
  moreover have "\<forall>p. p \<noteq> ''ChangeList_crop.png'' \<longrightarrow> files w' p = files w p"
    using script_frame(3) [OF assms] by blast
  moreover have "take (length (bufs w)) (bufs w') = bufs w"
    by (rule script_frame(2) [OF assms])
  moreover have "length (bufs w) \<le> i \<and> i < r \<and> r < c \<and> c < length (bufs w')
             \<and> (\<exists>bs. files w ''ChangeList.png'' = Some bs
                    \<and> decode L bs = Some (bufs w' ! i))"
    if res: "res = Inr (i, r, c)" for i r c
    using assms
  proof (cases rule: script_cases)
    case (saved i' r' c' w3 out)
    then have p: "prepare L w = (Inr (i, r, c), w3)" using res by simp
    from prepare_InrD [OF p] saved(5) show ?thesis by (auto simp: nth_append)
  qed (simp_all add: res)
  ultimately show ?thesis by blast
qed

text \<open>
  A run on a 1600 by 900 source.
\<close>

theorem C9_source_untouched_witness:
  "files (snd (script test_pil (test_world 1600 900))) ''ChangeList.png''
      = files (test_world 1600 900) ''ChangeList.png''
   \<and> files (snd (script test_pil (test_world 1600 900))) ''Other.png''
      = files (test_world 1600 900) ''Other.png''
   \<and> take (length (bufs (test_world 1600 900)))
        (bufs (snd (script test_pil (test_world 1600 900)))) = bufs (test_world 1600 900)
   \<and> fst (script test_pil (test_world 1600 900)) = Inr (0, 1, 2)
   \<and> decode test_pil [1600, 900]
      = Some (bufs (snd (script test_pil (test_world 1600 900))) ! 0)"
proof -
  have run: "fst (script test_pil (test_world 1600 900)) = Inr (0, 1, 2)"
    by (simp add: run_defs)
  then have "script test_pil (test_world 1600 900)
      = (Inr (0, 1, 2), snd (script test_pil (test_world 1600 900)))"
    by (metis prod.collapse)
  from C9_source_untouched [OF this] run show ?thesis
    by (auto simp: test_world_simps)
qed

subsection \<open>C10: a narrow source is widened\<close>

text \<open>
  C10, as stated, fails: a 1 by 1789570 source has \<open>0 < W < 1200\<close>, its new height
  is 2147484000, which is no C \<open>int\<close>, and \<open>resize\<close> raises \<open>OverflowError\<close>; there is
  no resized buffer.
\<close>

theorem C10_height_overflow_counterexample:
  "new_height 1 1789570 = Inr 2147484000
   \<and> fst (resize test_pil 0 (new_width, 2147484000)
        \<lparr>files = Map.empty, read_only = {}, bufs = [test_image 1 1789570]\<rparr>)
       = Inl OverflowError
   \<and> fst (prepare test_pil (test_world 1 1789570)) = Inl OverflowError"
  by (simp add: run_defs)

text \<open>
  C10, amended: for every source image with \<open>0 < W < 1200\<close>, a height of at least 1
  and a new height \<open>\<lfloor>1200 * H / W\<rfloor>\<close> of at most 38347922, the resize succeeds and the
  resized buffer is exactly 1200 wide; it is never left at the size of the source.
\<close>

theorem C10_narrow_source_upscaled:
  assumes "files w ''ChangeList.png'' = Some bs" and "decode L bs = Some im"
    and "size_im im = (W, H)"
    and "0 < W" and "W < 1200" and "0 < H" and "H < 2 ^ 31"
    and "1200 * H div W \<le> 38347922"
  shows "\<exists>i r c w'. prepare L w = (Inr (i, r, c), w')
           \<and> bufs w' ! i = im
           \<and> fst (size_im (bufs w' ! r)) = 1200
           \<and> size_im (bufs w' ! r) \<noteq> size_im (bufs w' ! i)"
proof -
  have W: "W < 2 ^ 31" "W \<le> 1200 * H" using assms(4,5,6) by simp_all
  obtain rim cim where
    rim: "size_im rim = (1200, 1200 * H div W)" "mode_im rim = mode_im im"
      "(W, H) = (1200, 1200 * H div W) \<longrightarrow> rim = im"
    and cim: "size_im cim = (1200, 630)" "mode_im cim = mode_im rim"
      "\<And>x y. pix cim x y =
         (if 0 \<le> x \<and> x < 1200 \<and> 0 \<le> y \<and> y < 1200 * H div W then pix rim x y else 0)"
    and p: "prepare L w =
       (Inr (length (bufs w), length (bufs w) + 1, length (bufs w) + 2),
        w\<lparr>bufs := bufs w @ [im, rim, cim]\<rparr>)"
    by (rule prepare_run [OF assms(1,2,3,4) W(1) assms(7) W(2) assms(8)]) (rule that)
  show ?thesis using rim(1) assms(3,5) unfolding p by (simp add: nth_append)
qed

text \<open>
  A 600 by 800 source.
\<close>

theorem C10_narrow_source_upscaled_witness:
  "\<exists>i r c w'. prepare test_pil (test_world 600 800) = (Inr (i, r, c), w')
           \<and> bufs w' ! i = test_image 600 800
           \<and> fst (size_im (bufs w' ! r)) = 1200
           \<and> size_im (bufs w' ! r) \<noteq> size_im (bufs w' ! i)"
proof -
  have sz: "size_im (test_image 600 800) = (600, 800)"
    by (simp add: test_image_simps)
  have d: "(0::int) < 600" "(600::int) < 1200" "(0::int) < 800" "(800::int) < 2 ^ 31"
    "1200 * (800::int) div 600 \<le> 38347922"
    by simp_all
  show ?thesis
    by (rule C10_narrow_source_upscaled [OF test_world_simps(1) test_pil_simps(1) sz d])
qed

end
